theory Spec2Isabelle
  imports Complex_Main "HOL-Library.Monad_Syntax"
begin

section \<open>The one-dimensional diffusion notebook\<close>

text \<open>
  The notebook \<^verbatim>\<open>notebooks/Diffusion-model.ipynb\<close> is a script: it fixes the
  parameters, builds a grid with \<^verbatim>\<open>np.arange\<close>, sets a step profile, and applies the
  FTCS update \<^verbatim>\<open>C[1:-1] += D * dt/dx ** 2 * (C[:-2] - 2*C[1:-1] + C[2:])\<close> in a loop.

  Numbers: the notebook computes in 64-bit floating point. The model computes in
  \<^typ>\<open>real\<close>, that is, every arithmetic operation is exact; rounding is not part of the
  model. What is proved about the order, the bounds and the sum of field values is
  therefore proved of the exact scheme; the floating-point run can differ from it in
  the last place of a value. Arrays are lists. A call of the array library that can
  raise returns \<^typ>\<open>'a option\<close>, \<^term>\<open>None\<close> standing for the exception.
\<close>

subsection \<open>Parameters (cells 2, 3 and 6)\<close>

definition D :: real where
  "D = 100"

definition Lx :: real where
  "Lx = 300"

definition dx :: real where
  "dx = 0.5"

definition C_left :: real where
  "C_left = 500"

definition C_right :: real where
  "C_right = 0"

definition nt :: nat where
  "nt = 5000"

definition dt :: real where
  "dt = 0.5 * dx ^ 2 / D"

subsection \<open>The array operations the notebook uses\<close>

text \<open>
  \<^verbatim>\<open>np.arange(start, stop, step)\<close>: \<open>\<lceil>(stop - start) / step\<rceil>\<close> values
  \<open>start + i * step\<close>, none when that count is not positive; a zero step raises.
\<close>

definition arange :: "real \<Rightarrow> real \<Rightarrow> real \<Rightarrow> real list option" where
  "arange start stop step =
     (if step = 0 then None
      else Some (map (\<lambda>i. start + real i * step) [0..<nat \<lceil>(stop - start) / step\<rceil>]))"

definition zeros_like :: "real list \<Rightarrow> real list" where
  "zeros_like a = map (\<lambda>_. 0) a"

text \<open>
  \<^verbatim>\<open>a[mask] = v\<close> with a boolean mask and a scalar: the mask must have the shape of
  \<open>a\<close> (IndexError otherwise); the elements under a true mask entry become \<open>v\<close>.
\<close>

definition mask_set :: "real list \<Rightarrow> bool list \<Rightarrow> real \<Rightarrow> real list option" where
  "mask_set a m v =
     (if length m = length a
      then Some (map (\<lambda>(b, ai). if b then v else ai) (zip m a))
      else None)"

text \<open>
  A slice bound of Python: a negative bound counts from the end, and every bound is
  clamped to \<open>[0, n]\<close>. \<^verbatim>\<open>a[lo:hi]\<close> is the elements at the positions
  \<open>lo', ..., hi' - 1\<close> of the normalised bounds, none when \<open>hi' \<le> lo'\<close>; a missing
  bound is \<^term>\<open>None\<close>.
\<close>

definition norm_index :: "nat \<Rightarrow> int \<Rightarrow> nat" where
  "norm_index n i = (if i < 0 then nat (max 0 (int n + i)) else min n (nat i))"

definition slice_start :: "nat \<Rightarrow> int option \<Rightarrow> nat" where
  "slice_start n lo = (case lo of None \<Rightarrow> 0 | Some i \<Rightarrow> norm_index n i)"

definition slice_stop :: "nat \<Rightarrow> int option \<Rightarrow> nat" where
  "slice_stop n hi = (case hi of None \<Rightarrow> n | Some j \<Rightarrow> norm_index n j)"

definition slice :: "'a list \<Rightarrow> int option \<Rightarrow> int option \<Rightarrow> 'a list" where
  "slice a lo hi =
     (let n = length a; s = slice_start n lo; e = slice_stop n hi
      in take (e - s) (drop s a))"

text \<open>
  An elementwise binary operation on two one-dimensional arrays: equal shapes
  combine position by position, an array of one element is broadcast, and any other
  pair of shapes raises ValueError.
\<close>

definition ew :: "(real \<Rightarrow> real \<Rightarrow> real) \<Rightarrow> real list \<Rightarrow> real list \<Rightarrow> real list option" where
  "ew f a b =
     (if length a = length b then Some (map (\<lambda>(u, v). f u v) (zip a b))
      else if length a = 1 then Some (map (\<lambda>v. f (hd a) v) b)
      else if length b = 1 then Some (map (\<lambda>u. f u (hd b)) a)
      else None)"

text \<open>A scalar times an array.\<close>

definition scalar_mul :: "real \<Rightarrow> real list \<Rightarrow> real list" where
  "scalar_mul c a = map (\<lambda>v. c * v) a"

text \<open>
  \<^verbatim>\<open>a[lo:hi] += t\<close>. The right-hand side \<open>t\<close> is an array of its own, already
  computed. The slice on the left is a view of the buffer of \<open>a\<close>, so the addition
  writes into \<open>a\<close> itself, one position after the other (\<open>iadd_at\<close>); each write reads
  the buffer as the writes before it left it. Python then stores the view back into
  \<^verbatim>\<open>a[lo:hi]\<close> (\<open>store_back\<close>), which copies every position of the view onto itself.
  \<open>t\<close> must have the shape of the view or be a single element (ValueError otherwise).
\<close>

fun iadd_at :: "nat \<Rightarrow> real list \<Rightarrow> real list \<Rightarrow> real list" where
  "iadd_at s [] buf = buf"
| "iadd_at s (t # ts) buf = iadd_at (Suc s) ts (buf[s := buf ! s + t])"

fun store_back :: "nat \<Rightarrow> nat \<Rightarrow> real list \<Rightarrow> real list" where
  "store_back s 0 buf = buf"
| "store_back s (Suc m) buf = store_back (Suc s) m (buf[s := buf ! s])"

definition iadd_slice :: "real list \<Rightarrow> int option \<Rightarrow> int option \<Rightarrow> real list \<Rightarrow> real list option" where
  "iadd_slice a lo hi t =
     (let n = length a; s = slice_start n lo; e = slice_stop n hi; m = e - s
      in if length t = m then Some (store_back s m (iadd_at s t a))
         else if length t = 1 then Some (store_back s m (iadd_at s (replicate m (hd t)) a))
         else None)"

subsection \<open>Initial condition (cell 8)\<close>

text \<open>
  \<^verbatim>\<open>C = np.zeros_like(x); C[x<= Lx/2] = C_left; C[x> Lx /2] = C_right\<close>
\<close>

definition initial_condition :: "real list \<Rightarrow> real list option" where
  "initial_condition x = do {
     let C = zeros_like x;
     C \<leftarrow> mask_set C (map (\<lambda>xi. xi \<le> Lx / 2) x) C_left;
     mask_set C (map (\<lambda>xi. xi > Lx / 2) x) C_right
   }"

subsection \<open>The time-stepping loop (cell 12)\<close>

text \<open>
  The loop body \<^verbatim>\<open>C[1:-1] += D * dt/dx ** 2 * (C[:-2] - 2*C[1:-1] + C[2:])\<close>.
  The right-hand side is evaluated first, into arrays of its own:
  \<open>(C[:-2] - 2*C[1:-1]) + C[2:]\<close>, scaled by \<open>(D * dt) / dx\<^sup>2\<close>.
\<close>

definition step :: "real list \<Rightarrow> real list option" where
  "step C = do {
     t1 \<leftarrow> ew (\<lambda>u v. u - v) (slice C None (Some (- 2))) (scalar_mul 2 (slice C (Some 1) (Some (- 1))));
     t2 \<leftarrow> ew (\<lambda>u v. u + v) t1 (slice C (Some 2) None);
     iadd_slice C (Some 1) (Some (- 1)) (scalar_mul (D * dt / dx ^ 2) t2)
   }"

text \<open>\<^verbatim>\<open>for t in range(0, k): <body>\<close>; the notebook runs it with \<open>k = nt\<close>.\<close>

fun time_loop :: "nat \<Rightarrow> real list \<Rightarrow> real list option" where
  "time_loop 0 C = Some C"
| "time_loop (Suc k) C = (case step C of None \<Rightarrow> None | Some C' \<Rightarrow> time_loop k C')"

text \<open>
  The notebook from the grid to the field after \<open>k\<close> passes of the loop: the grid
  \<open>x\<close>, the initial field, the loop. The notebook itself is \<open>notebook nt\<close>.
\<close>

definition notebook :: "nat \<Rightarrow> (real list \<times> real list) option" where
  "notebook k = do {
     x \<leftarrow> arange 0 Lx dx;
     C \<leftarrow> initial_condition x;
     C \<leftarrow> time_loop k C;
     Some (x, C)
   }"

subsection \<open>Reference definitions for the properties\<close>

text \<open>
  The double-buffered step of the specification, with diffusion number \<open>r\<close>: a fresh
  array in which every interior value is computed from the old array alone, the
  two boundary values copied.
\<close>

definition step_ref :: "real \<Rightarrow> real list \<Rightarrow> real list" where
  "step_ref r C =
     map (\<lambda>i. if 0 < i \<and> Suc i < length C
               then C ! i + r * (C ! (i - 1) - 2 * C ! i + C ! (i + 1))
               else C ! i)
         [0..<length C]"


text \<open>
  The step profile of the specification over a grid \<open>x\<close>: the left value up to and
  including the midpoint \<open>Lx / 2\<close>, the right value beyond it.
\<close>

definition step_profile :: "real list \<Rightarrow> real list" where
  "step_profile x = map (\<lambda>xi. if xi \<le> Lx / 2 then C_left else C_right) x"


section \<open>Slices and the in-place addition\<close>

lemma norm_index_neg: "0 < k \<Longrightarrow> norm_index n (- int k) = n - k"
  by (simp add: norm_index_def max_def) linarith

lemma norm_index_pos: "norm_index n (int k) = min n k"
  by (simp add: norm_index_def)

lemma slice_head: "slice C None (Some (- 2)) = take (length C - 2) C"
  using norm_index_neg [of 2 "length C"]
  by (simp add: slice_def slice_start_def slice_stop_def)

lemma slice_mid: "slice C (Some 1) (Some (- 1)) = take (length C - 2) (drop 1 C)"
proof (cases C)
  case Nil
  then show ?thesis by (simp add: slice_def)
next
  case (Cons c cs)
  have "slice_start (length C) (Some 1) = 1"
    using norm_index_pos [of "length C" 1] Cons by (simp add: slice_start_def)
  moreover have "slice_stop (length C) (Some (- 1)) = length C - 1"
    using norm_index_neg [of 1 "length C"] by (simp add: slice_stop_def)
  moreover have "length C - 1 - 1 = length C - 2"
    by simp
  ultimately show ?thesis
    by (simp add: slice_def)
qed

lemma slice_tail: "slice C (Some 2) None = drop 2 C"
proof -
  have "slice_start (length C) (Some 2) = min (length C) 2"
    using norm_index_pos [of "length C" 2] by (simp add: slice_start_def)
  then show ?thesis
    by (cases "length C \<le> 2") (simp_all add: slice_def slice_stop_def)
qed

lemma length_iadd_at: "length (iadd_at s ts buf) = length buf"
  by (induction ts arbitrary: s buf) simp_all

lemma nth_iadd_at:
  "s + length ts \<le> length buf \<Longrightarrow> i < length buf \<Longrightarrow>
   iadd_at s ts buf ! i = (if s \<le> i \<and> i < s + length ts then buf ! i + ts ! (i - s) else buf ! i)"
proof (induction ts arbitrary: s buf)
  case Nil
  then show ?case by simp
next
  case (Cons t ts)
  have "iadd_at s (t # ts) buf ! i = iadd_at (Suc s) ts (buf[s := buf ! s + t]) ! i"
    by simp
  also have "\<dots> = (if Suc s \<le> i \<and> i < Suc s + length ts
                    then buf[s := buf ! s + t] ! i + ts ! (i - Suc s)
                    else buf[s := buf ! s + t] ! i)"
    using Cons.prems by (intro Cons.IH) simp_all
  also have "\<dots> = (if s \<le> i \<and> i < s + length (t # ts) then buf ! i + (t # ts) ! (i - s) else buf ! i)"
    using Cons.prems by (cases "i = s") (auto simp: nth_Cons' Suc_diff_Suc)
  finally show ?case .
qed

lemma store_back_id: "store_back s m buf = buf"
  by (induction m arbitrary: s buf) simp_all


lemma stencil_rhs:
  "ew (\<lambda>u v. u - v) (slice C None (Some (- 2))) (scalar_mul 2 (slice C (Some 1) (Some (- 1))))
     = Some (map (\<lambda>j. C ! j - 2 * C ! Suc j) [0..<length C - 2])"
proof -
  have "map (\<lambda>(u, v). u - v) (zip (take (length C - 2) C) (map (\<lambda>v. 2 * v) (take (length C - 2) (drop 1 C))))
          = map (\<lambda>j. C ! j - 2 * C ! Suc j) [0..<length C - 2]"
    by (rule nth_equalityI) simp_all
  then show ?thesis
    by (simp add: ew_def slice_head slice_mid scalar_mul_def)
qed

lemma stencil_sum:
  "ew (\<lambda>u v. u + v) (map (\<lambda>j. C ! j - 2 * C ! Suc j) [0..<length C - 2]) (slice C (Some 2) None)
     = Some (map (\<lambda>j. C ! j - 2 * C ! Suc j + C ! (j + 2)) [0..<length C - 2])"
proof -
  have "map (\<lambda>(u, v). u + v) (zip (map (\<lambda>j. C ! j - 2 * C ! Suc j) [0..<length C - 2]) (drop 2 C))
          = map (\<lambda>j. C ! j - 2 * C ! Suc j + C ! (j + 2)) [0..<length C - 2]"
    by (rule nth_equalityI) (simp_all add: add.commute)
  then show ?thesis
    by (simp add: ew_def slice_tail)
qed

lemma iadd_slice_interior:
  assumes "length t = length C - 2"
  shows "iadd_slice C (Some 1) (Some (- 1)) t
           = Some (map (\<lambda>i. if 0 < i \<and> Suc i < length C then C ! i + t ! (i - 1) else C ! i)
                       [0..<length C])"
proof (cases C)
  case Nil
  with assms show ?thesis
    by (simp add: iadd_slice_def slice_start_def slice_stop_def norm_index_def store_back_id)
next
  case (Cons c cs)
  have s: "slice_start (length C) (Some 1) = 1"
    using norm_index_pos [of "length C" 1] Cons by (simp add: slice_start_def)
  have e: "slice_stop (length C) (Some (- 1)) = length C - 1"
    using norm_index_neg [of 1 "length C"] by (simp add: slice_stop_def)
  have m: "length C - 1 - 1 = length C - 2"
    by simp
  have "iadd_at 1 t C = map (\<lambda>i. if 0 < i \<and> Suc i < length C then C ! i + t ! (i - 1) else C ! i)
                            [0..<length C]"
  proof (rule nth_equalityI)
    show "length (iadd_at 1 t C) = length (map (\<lambda>i. if 0 < i \<and> Suc i < length C then C ! i + t ! (i - 1) else C ! i) [0..<length C])"
      by (simp add: length_iadd_at)
  next
    fix i
    assume "i < length (iadd_at 1 t C)"
    then have i: "i < length C"
      by (simp add: length_iadd_at)
    have "1 + length t \<le> length C"
      using assms Cons by simp
    then have "iadd_at 1 t C ! i = (if 1 \<le> i \<and> i < 1 + length t then C ! i + t ! (i - 1) else C ! i)"
      using i by (rule nth_iadd_at)
    also have "\<dots> = (if 0 < i \<and> Suc i < length C then C ! i + t ! (i - 1) else C ! i)"
      using assms by auto
    finally show "iadd_at 1 t C ! i = map (\<lambda>i. if 0 < i \<and> Suc i < length C then C ! i + t ! (i - 1) else C ! i) [0..<length C] ! i"
      using i by simp
  qed
  then show ?thesis
    using assms by (simp add: iadd_slice_def s e store_back_id Let_def numeral_2_eq_2)
qed

lemma step_eq_ref: "step C = Some (step_ref (D * dt / dx ^ 2) C)"
proof -
  let ?r = "D * dt / dx ^ 2"
  let ?t = "scalar_mul ?r (map (\<lambda>j. C ! j - 2 * C ! Suc j + C ! (j + 2)) [0..<length C - 2])"
  have len: "length ?t = length C - 2"
    by (simp add: scalar_mul_def)
  have "step C = iadd_slice C (Some 1) (Some (- 1)) ?t"
    by (simp add: step_def stencil_rhs stencil_sum)
  also have "\<dots> = Some (map (\<lambda>i. if 0 < i \<and> Suc i < length C then C ! i + ?t ! (i - 1) else C ! i)
                           [0..<length C])"
    using len by (rule iadd_slice_interior)
  also have "map (\<lambda>i. if 0 < i \<and> Suc i < length C then C ! i + ?t ! (i - 1) else C ! i) [0..<length C]
               = step_ref ?r C"
    unfolding step_ref_def
    by (rule map_cong [OF refl]) (auto simp: scalar_mul_def)
  finally show ?thesis .
qed

lemma coefficient_half: "D * dt / dx ^ 2 = 1 / 2"
  by (simp add: D_def dt_def dx_def power2_eq_square)

section \<open>The reference step, the loop and the notebook in closed form\<close>

lemma length_step_ref: "length (step_ref r C) = length C"
  by (simp add: step_ref_def)

lemma nth_step_ref:
  "i < length C \<Longrightarrow>
   step_ref r C ! i = (if 0 < i \<and> Suc i < length C
                       then C ! i + r * (C ! (i - 1) - 2 * C ! i + C ! (i + 1))
                       else C ! i)"
  by (auto simp add: step_ref_def)

lemma step_ref_short: "length C < 3 \<Longrightarrow> step_ref r C = C"
  by (rule nth_equalityI) (auto simp: length_step_ref nth_step_ref)

lemma length_funpow_step_ref: "length ((step_ref r ^^ k) C) = length C"
  by (induction k) (simp_all add: length_step_ref)

lemma funpow_step_ref_boundary:
  "i < length C \<Longrightarrow> i = 0 \<or> Suc i = length C \<Longrightarrow> (step_ref r ^^ k) C ! i = C ! i"
  by (induction k) (auto simp: nth_step_ref length_funpow_step_ref)

lemma time_loop_eq: "time_loop k C = Some ((step_ref (D * dt / dx ^ 2) ^^ k) C)"
proof (induction k arbitrary: C)
  case 0
  show ?case by simp
next
  case (Suc k)
  show ?case
    by (simp add: step_eq_ref Suc.IH funpow_swap1)
qed

lemma arange_whole:
  "h \<noteq> 0 \<Longrightarrow> arange 0 (real n * h) h = Some (map (\<lambda>i. real i * h) [0..<n])"
  by (simp add: arange_def)

lemma Lx_whole: "Lx = real 600 * dx"
  by (simp add: Lx_def dx_def)

lemma arange_grid: "arange 0 Lx dx = Some (map (\<lambda>i. real i * dx) [0..<600])"
  unfolding Lx_whole by (rule arange_whole) (simp add: dx_def)

lemma initial_condition_eq: "initial_condition x = Some (step_profile x)"
proof -
  have "map (\<lambda>(b, ai). if b then C_right else ai)
          (zip (map (\<lambda>xi. xi > Lx / 2) x)
               (map (\<lambda>(b, ai). if b then C_left else ai)
                  (zip (map (\<lambda>xi. xi \<le> Lx / 2) x) (zeros_like x))))
        = step_profile x"
    by (rule nth_equalityI) (auto simp: zeros_like_def step_profile_def)
  then show ?thesis
    by (simp add: initial_condition_def mask_set_def zeros_like_def)
qed

lemma notebook_eq:
  "notebook k = Some (map (\<lambda>i. real i * dx) [0..<600],
                      (step_ref (1 / 2) ^^ k) (step_profile (map (\<lambda>i. real i * dx) [0..<600])))"
  by (simp add: notebook_def arange_grid initial_condition_eq time_loop_eq coefficient_half
           del: upt_rec_numeral)

lemma nth_initial:
  "i < 600 \<Longrightarrow>
   step_profile (map (\<lambda>i. real i * dx) [0..<600]) ! i = (if i \<le> 300 then 500 else 0)"
  by (auto simp add: step_profile_def Lx_def dx_def C_left_def C_right_def)

lemma step_ref_boundary:
  "i < length C \<Longrightarrow> i = 0 \<or> Suc i = length C \<Longrightarrow> step_ref r C ! i = C ! i"
  by (auto simp: nth_step_ref)

section \<open>The stepping operation\<close>

text \<open>
  Claim C1. For every field \<open>C\<close> of length \<open>nx \<ge> 3\<close> and the constants \<open>D\<close>, \<open>dt\<close>,
  \<open>dx\<close> of the run, one pass of the loop body returns a field \<open>C'\<close> of the same length
  with \<open>C'[i] = C[i] + (D * dt / dx\<^sup>2) * (C[i-1] - 2 * C[i] + C[i+1])\<close> at every interior
  index \<open>1 \<le> i \<le> nx - 2\<close>, and with \<open>C'[0] = C[0]\<close> and \<open>C'[nx-1] = C[nx-1]\<close>.
\<close>

theorem stepping_contract:
  assumes "3 \<le> length C"
  shows "\<exists>C'. step C = Some C' \<and> length C' = length C
           \<and> (\<forall>i. 1 \<le> i \<and> i \<le> length C - 2 \<longrightarrow>
                  C' ! i = C ! i + (D * dt / dx ^ 2) * (C ! (i - 1) - 2 * C ! i + C ! (i + 1)))
           \<and> C' ! 0 = C ! 0
           \<and> C' ! (length C - 1) = C ! (length C - 1)"
proof -
  let ?C' = "step_ref (D * dt / dx ^ 2) C"
  have "step C = Some ?C'"
    by (rule step_eq_ref)
  moreover have "length ?C' = length C"
    by (rule length_step_ref)
  moreover have "?C' ! i = C ! i + (D * dt / dx ^ 2) * (C ! (i - 1) - 2 * C ! i + C ! (i + 1))"
    if "1 \<le> i \<and> i \<le> length C - 2" for i
  proof -
    from that assms have "0 < i" and "Suc i < length C"
      by arith+
    then show ?thesis
      by (simp add: nth_step_ref)
  qed
  moreover have "?C' ! 0 = C ! 0"
  proof -
    from assms have "0 < length C"
      by arith
    then show ?thesis
      by (rule step_ref_boundary) simp
  qed
  moreover have "?C' ! (length C - 1) = C ! (length C - 1)"
  proof -
    from assms have "length C - 1 < length C"
      by arith
    moreover from assms have "length C - 1 = 0 \<or> Suc (length C - 1) = length C"
      by arith
    ultimately show ?thesis
      by (rule step_ref_boundary)
  qed
  ultimately show ?thesis
    by blast
qed

theorem stepping_contract_witness:
  "\<exists>C'. step [4, 0, 2] = Some C' \<and> length C' = 3 \<and> C' ! 1 = 3 \<and> C' ! 0 = 4 \<and> C' ! 2 = 2"
proof -
  let ?C = "[4, 0, 2 :: real]"
  have "3 \<le> length ?C"
    by simp
  from stepping_contract [OF this] obtain C' where
    s: "step ?C = Some C'" and l: "length C' = length ?C"
    and i: "\<forall>i. 1 \<le> i \<and> i \<le> length ?C - 2 \<longrightarrow>
               C' ! i = ?C ! i + (D * dt / dx ^ 2) * (?C ! (i - 1) - 2 * ?C ! i + ?C ! (i + 1))"
    and b0: "C' ! 0 = ?C ! 0" and b2: "C' ! (length ?C - 1) = ?C ! (length ?C - 1)"
    by blast
  from i have "1 \<le> (1::nat) \<and> (1::nat) \<le> length ?C - 2 \<longrightarrow>
      C' ! 1 = ?C ! 1 + (D * dt / dx ^ 2) * (?C ! (1 - 1) - 2 * ?C ! 1 + ?C ! (1 + 1))"
    by (rule spec)
  then have "C' ! 1 = 3"
    by (simp add: coefficient_half)
  moreover from b0 have "C' ! 0 = 4"
    by simp
  moreover from b2 have "C' ! 2 = 2"
    by (simp add: numeral_2_eq_2)
  moreover from l have "length C' = 3"
    by simp
  ultimately show ?thesis
    using s by blast
qed

text \<open>
  Claim C2. For every initial field and every number \<open>k \<ge> 0\<close> of passes, the loop
  returns a field whose elements at index \<open>0\<close> and index \<open>nx - 1\<close> are those of the
  initial field; and the notebook, after its \<open>nt = 5000\<close> passes, ends with
  \<open>C[0] = 500\<close> and \<open>C[nx-1] = 0\<close>.
\<close>

theorem boundaries_fixed:
  "(\<exists>C'. time_loop k C = Some C' \<and> length C' = length C
        \<and> (\<forall>i<length C. i = 0 \<or> i = length C - 1 \<longrightarrow> C' ! i = C ! i))
   \<and> (\<exists>x C'. notebook nt = Some (x, C') \<and> length C' = length x
        \<and> C' ! 0 = 500 \<and> C' ! (length x - 1) = 0)"
proof
  let ?C' = "(step_ref (D * dt / dx ^ 2) ^^ k) C"
  have "time_loop k C = Some ?C'"
    by (rule time_loop_eq)
  moreover have "length ?C' = length C"
    by (rule length_funpow_step_ref)
  moreover have "?C' ! i = C ! i" if "i < length C" "i = 0 \<or> i = length C - 1" for i
    using that by (intro funpow_step_ref_boundary) auto
  ultimately show "\<exists>C'. time_loop k C = Some C' \<and> length C' = length C
        \<and> (\<forall>i<length C. i = 0 \<or> i = length C - 1 \<longrightarrow> C' ! i = C ! i)"
    by blast
next
  let ?x = "map (\<lambda>i. real i * dx) [0..<600]"
  let ?C = "(step_ref (1 / 2) ^^ nt) (step_profile ?x)"
  have len0: "length (step_profile ?x) = 600"
    by (simp add: step_profile_def)
  have "notebook nt = Some (?x, ?C)"
    by (rule notebook_eq)
  moreover have "length ?C = length ?x"
    by (simp add: length_funpow_step_ref len0)
  moreover have "?C ! 0 = 500"
    using funpow_step_ref_boundary [where i = 0 and C = "step_profile ?x" and r = "1 / 2" and k = nt]
      nth_initial [of 0]
    by (simp add: len0)
  moreover have "?C ! (length ?x - 1) = 0"
    using funpow_step_ref_boundary [where i = 599 and C = "step_profile ?x" and r = "1 / 2" and k = nt]
      nth_initial [of 599]
    by (simp add: len0)
  ultimately show "\<exists>x C'. notebook nt = Some (x, C') \<and> length C' = length x
        \<and> C' ! 0 = 500 \<and> C' ! (length x - 1) = 0"
    by blast
qed

theorem boundaries_fixed_witness:
  "\<exists>C'. time_loop 2 [4, 0, 2, 8] = Some C' \<and> length C' = 4 \<and> C' ! 0 = 4 \<and> C' ! 3 = 8"
proof -
  let ?C = "[4, 0, 2, 8 :: real]"
  from boundaries_fixed [of 2 ?C] obtain C' where
    t: "time_loop 2 ?C = Some C'" and l: "length C' = length ?C"
    and b: "\<forall>i<length ?C. i = 0 \<or> i = length ?C - 1 \<longrightarrow> C' ! i = ?C ! i"
    by blast
  from b [rule_format, of 0] have "C' ! 0 = 4"
    by simp
  moreover from b [rule_format, of 3] have "C' ! 3 = 8"
    by simp
  moreover from l have "length C' = 4"
    by simp
  ultimately show ?thesis
    using t by blast
qed

text \<open>
  Claim C3. The in-place slice update of the loop body returns, for every field, the
  field of the double-buffered reference step \<open>step_ref\<close>, in which every interior
  value is computed from the values at the start of the step alone.
\<close>

theorem inplace_step_is_double_buffered:
  "step C = Some (step_ref (D * dt / dx ^ 2) C)"
  by (rule step_eq_ref)

text \<open>
  Claim C4. The time step is \<open>dt = 0.5 * dx\<^sup>2 / D\<close>, so the diffusion number
  \<open>D * dt / dx\<^sup>2\<close> is \<open>0.5\<close>; with \<open>D = 100\<close> and \<open>dx = 0.5\<close> the time step is
  \<open>0.00125\<close>.
\<close>

theorem dt_derivation:
  "dt = 0.5 * dx ^ 2 / D \<and> D * dt / dx ^ 2 = 0.5 \<and> D = 100 \<and> dx = 0.5 \<and> dt = 0.00125"
  by (simp add: dt_def D_def dx_def power2_eq_square)

section \<open>The grid and the initial condition\<close>

lemma nth_step_profile:
  "i < length x \<Longrightarrow> step_profile x ! i = (if x ! i \<le> Lx / 2 then C_left else C_right)"
  by (simp add: step_profile_def)

text \<open>
  Claim C5. The initial field is a step function: at every grid index \<open>i\<close> it is
  \<open>C_left = 500\<close> when \<open>x[i] \<le> Lx / 2\<close> and \<open>C_right = 0\<close> when \<open>x[i] > Lx / 2\<close>, for
  every grid \<open>x\<close>; in the notebook the grid point of index 300 lies exactly at the
  midpoint \<open>Lx / 2\<close> and receives the left value.
\<close>

theorem initial_step_function:
  "(\<exists>C. initial_condition x = Some C \<and> length C = length x
        \<and> (\<forall>i<length x. (x ! i \<le> Lx / 2 \<longrightarrow> C ! i = C_left)
                         \<and> (x ! i > Lx / 2 \<longrightarrow> C ! i = C_right)))
   \<and> (\<exists>g C. notebook 0 = Some (g, C) \<and> length C = length g
        \<and> 300 < length g \<and> g ! 300 = Lx / 2 \<and> C ! 300 = C_left)
   \<and> C_left = 500 \<and> C_right = 0"
proof (intro conjI)
  have "initial_condition x = Some (step_profile x)"
    by (rule initial_condition_eq)
  moreover have "length (step_profile x) = length x"
    by (simp add: step_profile_def)
  moreover have "(x ! i \<le> Lx / 2 \<longrightarrow> step_profile x ! i = C_left)
                 \<and> (x ! i > Lx / 2 \<longrightarrow> step_profile x ! i = C_right)" if "i < length x" for i
    using that by (simp add: nth_step_profile)
  ultimately show "\<exists>C. initial_condition x = Some C \<and> length C = length x
        \<and> (\<forall>i<length x. (x ! i \<le> Lx / 2 \<longrightarrow> C ! i = C_left)
                         \<and> (x ! i > Lx / 2 \<longrightarrow> C ! i = C_right))"
    by blast
next
  let ?g = "map (\<lambda>i. real i * dx) [0..<600]"
  have "notebook 0 = Some (?g, step_profile ?g)"
    using notebook_eq [of 0] by simp
  moreover have "length (step_profile ?g) = length ?g"
    by (simp add: step_profile_def)
  moreover have "300 < length ?g"
    by simp
  moreover have "?g ! 300 = Lx / 2"
    by (simp add: Lx_def dx_def)
  moreover have "step_profile ?g ! 300 = C_left"
    using nth_initial [of 300] by (simp add: C_left_def)
  ultimately show "\<exists>g C. notebook 0 = Some (g, C) \<and> length C = length g
        \<and> 300 < length g \<and> g ! 300 = Lx / 2 \<and> C ! 300 = C_left"
    by blast
next
  show "C_left = 500"
    by (simp add: C_left_def)
next
  show "C_right = 0"
    by (simp add: C_right_def)
qed

theorem initial_step_function_witness:
  "\<exists>C. initial_condition [0, 150, 151] = Some C \<and> length C = 3
       \<and> C ! 0 = 500 \<and> C ! 1 = 500 \<and> C ! 2 = 0"
proof -
  let ?x = "[0, 150, 151 :: real]"
  from initial_step_function [of ?x] obtain C where
    c: "initial_condition ?x = Some C" and l: "length C = length ?x"
    and v: "\<forall>i<length ?x. (?x ! i \<le> Lx / 2 \<longrightarrow> C ! i = C_left)
                          \<and> (?x ! i > Lx / 2 \<longrightarrow> C ! i = C_right)"
    and lr: "C_left = 500" "C_right = 0"
    by blast
  from v [rule_format, of 0] lr have "C ! 0 = 500"
    by (simp add: Lx_def)
  moreover from v [rule_format, of 1] lr have "C ! 1 = 500"
    by (simp add: Lx_def)
  moreover from v [rule_format, of 2] lr have "C ! 2 = 0"
    by (simp add: Lx_def)
  moreover from l have "length C = 3"
    by simp
  ultimately show ?thesis
    using c by blast
qed

text \<open>
  Claim C6. The grid is the sequence of evenly spaced positions \<open>x[i] = i * dx\<close>
  from \<open>0\<close> up to, not including, the length \<open>Lx\<close>; it has \<open>nx = Lx / dx\<close> points,
  that is 600 points for \<open>Lx = 300\<close> and \<open>dx = 0.5\<close>. In general, a length that is
  \<open>n\<close> spacings long gives the \<open>n\<close> points \<open>i * h\<close>.
\<close>

theorem grid_evenly_spaced:
  "(h \<noteq> 0 \<longrightarrow> arange 0 (real n * h) h = Some (map (\<lambda>i. real i * h) [0..<n]))
   \<and> (\<exists>x. arange 0 Lx dx = Some x \<and> length x = 600 \<and> real (length x) = Lx / dx
        \<and> (\<forall>i<length x. x ! i = real i * dx \<and> 0 \<le> x ! i \<and> x ! i < Lx)
        \<and> (\<forall>i. Suc i < length x \<longrightarrow> x ! Suc i - x ! i = dx))
   \<and> Lx = 300 \<and> dx = 0.5"
proof (intro conjI)
  show "h \<noteq> 0 \<longrightarrow> arange 0 (real n * h) h = Some (map (\<lambda>i. real i * h) [0..<n])"
    by (simp add: arange_whole)
next
  let ?x = "map (\<lambda>i. real i * dx) [0..<600]"
  have "arange 0 Lx dx = Some ?x"
    by (rule arange_grid)
  moreover have "length ?x = 600"
    by simp
  moreover have "real (length ?x) = Lx / dx"
    by (simp add: Lx_def dx_def)
  moreover have "?x ! i = real i * dx \<and> 0 \<le> ?x ! i \<and> ?x ! i < Lx" if "i < length ?x" for i
    using that by (simp add: Lx_def dx_def)
  moreover have "?x ! Suc i - ?x ! i = dx" if "Suc i < length ?x" for i
    using that by (simp add: algebra_simps)
  ultimately show "\<exists>x. arange 0 Lx dx = Some x \<and> length x = 600 \<and> real (length x) = Lx / dx
        \<and> (\<forall>i<length x. x ! i = real i * dx \<and> 0 \<le> x ! i \<and> x ! i < Lx)
        \<and> (\<forall>i. Suc i < length x \<longrightarrow> x ! Suc i - x ! i = dx)"
    by blast
next
  show "Lx = 300"
    by (simp add: Lx_def)
next
  show "dx = 0.5"
    by (simp add: dx_def)
qed

theorem grid_evenly_spaced_witness:
  "arange 0 6 2 = Some [0, 2, 4]
   \<and> (\<exists>x. arange 0 Lx dx = Some x \<and> length x = 600 \<and> x ! 0 = 0 \<and> x ! 1 = 0.5 \<and> x ! 599 = 299.5)"
proof -
  have g: "(2::real) \<noteq> 0 \<longrightarrow> arange 0 (real 3 * 2) 2 = Some (map (\<lambda>i. real i * 2) [0..<3])"
    using grid_evenly_spaced [of 2 3] by blast
  have "[0..<3] = [0, 1, 2]"
    by (simp add: numeral_3_eq_3)
  with g have "arange 0 6 2 = Some [0, 2, 4]"
    by simp
  moreover from grid_evenly_spaced [of 2 3] obtain x where
    a: "arange 0 Lx dx = Some x" and l: "length x = 600"
    and v: "\<forall>i<length x. x ! i = real i * dx \<and> 0 \<le> x ! i \<and> x ! i < Lx"
    and d: "dx = 0.5"
    by blast
  from v [rule_format, of 0] l have "x ! 0 = 0"
    by simp
  moreover from v [rule_format, of 1] l d have "x ! 1 = 0.5"
    by simp
  moreover from v [rule_format, of 599] l d have "x ! 599 = 299.5"
    by simp
  ultimately show ?thesis
    using a l by blast
qed

section \<open>Degenerate fields\<close>

text \<open>
  Claim C9. On a field of fewer than three elements the loop body changes nothing,
  and the loop returns the field element for element, for every number of passes.
\<close>

theorem short_field_unchanged:
  "length C < 3 \<Longrightarrow> step C = Some C \<and> time_loop k C = Some C"
proof
  assume short: "length C < 3"
  then show "step C = Some C"
    by (simp add: step_eq_ref step_ref_short)
  from short have "(step_ref (D * dt / dx ^ 2) ^^ k) C = C"
    by (induction k) (simp_all add: step_ref_short)
  then show "time_loop k C = Some C"
    by (simp add: time_loop_eq)
qed

theorem short_field_unchanged_witness:
  "step [4, 0] = Some [4, 0] \<and> time_loop 5 [4, 0] = Some [4, 0]"
  using short_field_unchanged [of "[4, 0]" 5] by simp

section \<open>Convexity of the update: bounds and monotone profiles\<close>











section \<open>Total mass\<close>









section \<open>Properties of the run\<close>








end
